theory Spec2Isabelle
  imports Main "HOL-Library.Word"
begin

unbundle bit_operations_syntax

section \<open>Machine types, causes and the call trace\<close>

text \<open>
  The collector is the MSweep heap of HotSpot (\<^verbatim>\<open>gc/msweep/msweepHeap.cpp\<close>,
  \<^verbatim>\<open>msweepHeap.hpp\<close>, \<^verbatim>\<open>msweepArguments.cpp\<close>). \<^verbatim>\<open>size_t\<close>, \<^verbatim>\<open>HeapWord*\<close> and
  \<^verbatim>\<open>oop\<close> are 64-bit values; the null pointer is the word 0.
\<close>

type_synonym size_t = "64 word"
type_synonym HeapWord_ptr = "64 word"
type_synonym oop = "64 word"

abbreviation NULL :: "64 word" where
  "NULL \<equiv> 0"

text \<open>
  \<^verbatim>\<open>GCCause::Cause\<close> is declared in \<^verbatim>\<open>gc/shared/gcCause.hpp\<close>. The four enumerators
  that the collector's code names are constructors of their own; \<open>other_cause\<close> stands
  for the remaining enumerators of that header.
\<close>

datatype Cause =
    java_lang_system_gc
  | allocation_failure
  | metadata_GC_threshold
  | metadata_GC_clear_soft_refs
  | other_cause nat

datatype log_level = Info | Warning

datatype log_arg = Size size_t | Cause_name Cause

datatype region = bitmap_region | fc_bitmap_region

text \<open>
  Everything the collector does outside its own fields is a call to a collaborator: the
  operating system, the free-list space, the runtime's root walkers, the metaspace and
  the log. The model records these calls, in order, in a trace.
\<close>

datatype event =
    Log log_level string "log_arg list"
  | Commit_memory region bool
  | Uncommit_memory region bool
  | Ensure_parsability bool
  | Do_roots
  | Object_iterate
  | Space_allocate size_t
  | Compute_new_size
  | Heap_lock_lock
  | Heap_lock_unlock

text \<open>
  Modelled from the spec: the \<^verbatim>\<open>assert\<close> macro of \<^verbatim>\<open>utilities/debug.hpp\<close>, which is
  not among the collector's files. The condition is checked where it is written and a
  failed check is fatal: the call ends with the assertion's message and returns
  nothing. (HotSpot compiles these checks into its debug builds.)
\<close>

datatype vm_error = assert_failed string

section \<open>Startup arguments\<close>

text \<open>
  The command-line flags that \<^verbatim>\<open>MSweepArguments::initialize\<close> reads and writes. A flag
  that the code tests with \<^verbatim>\<open>FLAG_IS_DEFAULT\<close> carries its origin beside its value;
  \<^verbatim>\<open>FLAG_SET_DEFAULT\<close> changes the value and leaves the origin.
\<close>

record flags =
  UseMSweepGC :: bool
  ExitOnOutOfMemoryError :: bool
  ExitOnOutOfMemoryError_is_default :: bool
  MSweepMaxTLABSize :: size_t
  MinTLABSize :: size_t
  UseCountedLoopSafepoints :: bool
  UseCountedLoopSafepoints_is_default :: bool
  LoopStripMiningIter :: "64 word"
  LoopStripMiningIter_is_default :: bool
  flag_log :: "event list"

text \<open>
  \<^verbatim>\<open>MSweepArguments::initialize\<close>. \<open>base\<close> is \<^verbatim>\<open>GCArguments::initialize\<close> of the shared
  code and \<open>compiler2\<close> says whether the build defines \<^verbatim>\<open>COMPILER2\<close>. A failed
  \<^verbatim>\<open>assert\<close> ends the VM.
\<close>

definition MSweepArguments_initialize ::
  "bool \<Rightarrow> (flags \<Rightarrow> flags) \<Rightarrow> flags \<Rightarrow> vm_error + flags" where
  "MSweepArguments_initialize compiler2 base f0 =
     (let f1 = base f0 in
      if \<not> UseMSweepGC f1 then Inl (assert_failed ''Sanity'')
      else
        let f2 = (if ExitOnOutOfMemoryError_is_default f1
                  then f1\<lparr>ExitOnOutOfMemoryError := True\<rparr> else f1);
            f3 = (if MSweepMaxTLABSize f2 < MinTLABSize f2
                  then f2\<lparr>flag_log := flag_log f2 @
                            [Log Warning
                               ''MSweepMaxTLABSize < MinTLABSize, adjusting it to %zu''
                               [Size (MinTLABSize f2)]],
                         MSweepMaxTLABSize := MinTLABSize f2\<rparr>
                  else f2);
            f4 = (if compiler2 \<and> UseCountedLoopSafepoints_is_default f3
                  then (let f = f3\<lparr>UseCountedLoopSafepoints := True\<rparr>
                        in if LoopStripMiningIter_is_default f
                           then f\<lparr>LoopStripMiningIter := 1000\<rparr> else f)
                  else f3)
        in Inr f4)"

section \<open>Alignment and the collaborators of the heap\<close>

text \<open>
  The runtime around the collector. \<^verbatim>\<open>MinObjAlignment\<close> (in words) is
  \<open>1 << LogMinObjAlignment\<close>; \<open>CollectedHeap_max_tlab_size\<close> is the value of the
  base-class \<^verbatim>\<open>CollectedHeap::max_tlab_size()\<close>; \<open>space_allocate\<close> is
  \<^verbatim>\<open>MSweepFreeListSpace::allocate\<close> on the free list and \<open>adjust_chunk_size\<close> is
  \<^verbatim>\<open>MSweepFreeList::adjust_chunk_size\<close>, both of \<^verbatim>\<open>msweepFreeListSpace.hpp\<close>;
  \<open>os_commit\<close> and \<open>os_uncommit\<close> are the answers of \<^verbatim>\<open>os::commit_memory\<close> and
  \<^verbatim>\<open>os::uncommit_memory\<close> for a region; \<open>roots\<close> are the values of the root slots in
  the order in which \<^verbatim>\<open>do_roots\<close> hands them to the closure; \<open>at_safepoint\<close> is
  \<^verbatim>\<open>SafepointSynchronize::is_at_safepoint()\<close>.
\<close>

record MSweepNode =
  node_start :: HeapWord_ptr
  node_size :: size_t

record host =
  LogMinObjAlignment :: nat
  CollectedHeap_max_tlab_size :: size_t
  space_allocate :: "MSweepNode list \<Rightarrow> size_t \<Rightarrow> HeapWord_ptr \<times> MSweepNode list"
  adjust_chunk_size :: "size_t \<Rightarrow> size_t"
  os_commit :: "region \<Rightarrow> bool"
  os_uncommit :: "region \<Rightarrow> bool"
  roots :: "oop list"
  at_safepoint :: bool

definition HeapWordSize :: size_t where
  "HeapWordSize = 8"

definition LogHeapWordSize :: nat where
  "LogHeapWordSize = 3"

definition MinObjAlignment :: "host \<Rightarrow> size_t" where
  "MinObjAlignment h = push_bit (LogMinObjAlignment h) 1"

definition MinObjAlignmentInBytes :: "host \<Rightarrow> size_t" where
  "MinObjAlignmentInBytes h = push_bit (LogMinObjAlignment h + LogHeapWordSize) 1"

text \<open>
  Modelled from the spec: the helpers of \<^verbatim>\<open>utilities/align.hpp\<close> and
  \<^verbatim>\<open>utilities/globalDefinitions.hpp\<close>, which are not part of the collector's files.
  Rounding and the alignment test work on the mask \<open>alignment - 1\<close> of a power of two;
  the addition wraps as \<^verbatim>\<open>size_t\<close> does. \<^verbatim>\<open>clamp\<close> checks \<open>min \<le> max\<close> first.
\<close>

definition alignment_mask :: "64 word \<Rightarrow> 64 word" where
  "alignment_mask alignment = alignment - 1"

definition is_aligned :: "64 word \<Rightarrow> 64 word \<Rightarrow> bool" where
  "is_aligned x alignment \<longleftrightarrow> x AND alignment_mask alignment = 0"

definition align_down :: "64 word \<Rightarrow> 64 word \<Rightarrow> 64 word" where
  "align_down x alignment = x AND NOT (alignment_mask alignment)"

definition align_up :: "64 word \<Rightarrow> 64 word \<Rightarrow> 64 word" where
  "align_up x alignment = align_down (x + alignment_mask alignment) alignment"

definition is_object_aligned :: "host \<Rightarrow> size_t \<Rightarrow> bool" where
  "is_object_aligned h word_size = is_aligned word_size (MinObjAlignment h)"

definition is_object_aligned_ptr :: "host \<Rightarrow> HeapWord_ptr \<Rightarrow> bool" where
  "is_object_aligned_ptr h addr = is_aligned addr (MinObjAlignmentInBytes h)"

definition align_object_size :: "host \<Rightarrow> size_t \<Rightarrow> size_t" where
  "align_object_size h word_size = align_up word_size (MinObjAlignment h)"

definition clamp :: "size_t \<Rightarrow> size_t \<Rightarrow> size_t \<Rightarrow> vm_error + size_t" where
  "clamp v lo hi =
     (if \<not> lo \<le> hi then Inl (assert_failed ''must be'')
      else Inr (min (max v lo) hi))"

section \<open>The heap\<close>

text \<open>
  An object, as the host reports it: \<^verbatim>\<open>obj->size()\<close> in words and the values of the
  reference slots that \<^verbatim>\<open>obj->oop_iterate\<close> visits, in order (0 is the null
  reference; the \<^verbatim>\<open>oop*\<close> instance of the closure is modelled, where decoding a
  non-null reference is the identity).
\<close>

record oopDesc =
  obj_size :: size_t
  obj_fields :: "oop list"

type_synonym object_table = "(oop \<times> oopDesc) list"

text \<open>
  The fields of \<^verbatim>\<open>MSweepHeap\<close> that the allocation and collection paths use.
  \<open>objects\<close> are the objects of the free-list space in address order; \<open>free_list\<close>
  is \<^verbatim>\<open>_free_list_space->free_list()\<close>; \<open>trace\<close> is the record of collaborator
  calls.

  Modelled from the spec: \<^verbatim>\<open>MarkBitMap\<close> of \<^verbatim>\<open>gc/shared/markBitMap.hpp\<close> and
  \<^verbatim>\<open>Stack\<close> of \<^verbatim>\<open>utilities/stack.hpp\<close>, which are not among the collector's files.
  The bitmap has one bit per aligned address and is the set of marked addresses:
  \<^verbatim>\<open>mark\<close> inserts an address and \<^verbatim>\<open>is_marked\<close> tests membership. The stack is a
  list whose head is the top: \<^verbatim>\<open>push\<close> puts an element in front, \<^verbatim>\<open>pop\<close> takes
  the head, \<^verbatim>\<open>is_empty\<close> tests for the empty list.
\<close>

record MSweepHeap =
  max_tlab_size :: size_t
  mark_bitmap :: "oop set"
  free_list :: "MSweepNode list"
  objects :: object_table
  trace :: "event list"

text \<open>
  An address that holds no object has no size and no fields to report: a well-formed
  heap has no such reference, and the model answers 0 and the empty list for it.
\<close>

definition size_of :: "object_table \<Rightarrow> oop \<Rightarrow> size_t" where
  "size_of g obj = (case map_of g obj of None \<Rightarrow> 0 | Some d \<Rightarrow> obj_size d)"

definition fields_of :: "object_table \<Rightarrow> oop \<Rightarrow> oop list" where
  "fields_of g obj = (case map_of g obj of None \<Rightarrow> [] | Some d \<Rightarrow> obj_fields d)"

text \<open>
  \<^verbatim>\<open>MSweepHeap::initialize\<close>, as far as the fields above go: the free-chunk bitmap is
  committed (a failure is logged and start-up goes on), the space starts with the free
  list \<open>fl0\<close> that \<^verbatim>\<open>MSweepFreeListSpace::initialize\<close> builds, and the TLAB cap is set.
\<close>

definition initialize :: "host \<Rightarrow> flags \<Rightarrow> MSweepNode list \<Rightarrow> MSweepHeap" where
  "initialize h f fl0 =
     \<lparr>max_tlab_size = min (CollectedHeap_max_tlab_size h)
                          (align_object_size h (MSweepMaxTLABSize f div HeapWordSize)),
      mark_bitmap = {},
      free_list = fl0,
      objects = [],
      trace = Commit_memory fc_bitmap_region (os_commit h fc_bitmap_region) #
              (if \<not> os_commit h fc_bitmap_region
               then [Log Warning ''Could not commit native memory for marking bitmap'' []]
               else [])\<rparr>"

section \<open>Marking\<close>

text \<open>
  \<^verbatim>\<open>ScanOopClosure\<close> holds the mark stack (top first) and the live bitmap.
  \<open>cl_pushed\<close> lists, in order, every object the closure has handed to
  \<^verbatim>\<open>_stack->push\<close>; \<open>cl_log\<close> is the trace while the closure runs. The bitmap is
  the set of marked addresses whatever the state of its backing storage: what reading
  or writing uncommitted storage does to the process is not represented.
\<close>

record ScanOopClosure =
  cl_stack :: "oop list"
  cl_bitmap :: "oop set"
  cl_pushed :: "oop list"
  cl_log :: "event list"

text \<open>\<^verbatim>\<open>ScanOopClosure::do_oop_work\<close> on a slot whose loaded value is \<open>v\<close>.\<close>

definition do_oop_work :: "object_table \<Rightarrow> oop \<Rightarrow> ScanOopClosure \<Rightarrow> ScanOopClosure" where
  "do_oop_work g v cl =
     (if v \<noteq> NULL then
        (let obj = v in
         if obj \<notin> cl_bitmap cl then
           cl\<lparr>cl_log := cl_log cl @
                  (if 100 < size_of g obj
                   then [Log Info ''Marking obj %li'' [Size (size_of g obj)]] else []),
              cl_bitmap := insert obj (cl_bitmap cl),
              cl_stack := obj # cl_stack cl,
              cl_pushed := cl_pushed cl @ [obj]\<rparr>
         else cl)
      else cl)"

text \<open>\<^verbatim>\<open>obj->oop_iterate(&cl)\<close>: the closure visits the reference slots of \<open>obj\<close>.\<close>

definition oop_iterate :: "object_table \<Rightarrow> oop \<Rightarrow> ScanOopClosure \<Rightarrow> ScanOopClosure" where
  "oop_iterate g obj cl = fold (do_oop_work g) (fields_of g obj) cl"

text \<open>\<^verbatim>\<open>MSweepHeap::do_roots\<close>: the closure visits every root slot.\<close>

definition do_roots :: "host \<Rightarrow> object_table \<Rightarrow> ScanOopClosure \<Rightarrow> ScanOopClosure" where
  "do_roots h g cl = fold (do_oop_work g) (roots h) (cl\<lparr>cl_log := cl_log cl @ [Do_roots]\<rparr>)"

text \<open>
  The loop \<^verbatim>\<open>while (!stack.is_empty())\<close> of \<^verbatim>\<open>MSweepHeap::mark\<close>. Every round either
  marks an address that some object's field holds and that was unmarked, or leaves the
  bitmap alone and shortens the stack: the pair of the number of unmarked field values
  and the stack length decreases lexicographically.
\<close>

function mark_loop :: "object_table \<Rightarrow> ScanOopClosure \<Rightarrow> ScanOopClosure" where
  "mark_loop g cl =
     (case cl_stack cl of
        [] \<Rightarrow> cl
      | obj # rest \<Rightarrow> mark_loop g (oop_iterate g obj (cl\<lparr>cl_stack := rest\<rparr>)))"
  by pat_completeness auto
termination
proof -
  let ?R = "inv_image (less_than <*lex*> less_than)
              (\<lambda>(g, cl). (card (\<Union>(set ` obj_fields ` snd ` set g) - cl_bitmap cl),
                           length (cl_stack cl)))"
  show ?thesis
  proof (relation ?R)
    show "wf ?R"
      by (intro wf_inv_image wf_lex_prod wf_less_than)
  next
    fix g :: object_table and cl :: ScanOopClosure and obj rest
    assume st: "cl_stack cl = obj # rest"
    let ?T = "\<Union>(set ` obj_fields ` snd ` set g)"
    have scan: "cl_bitmap c \<subseteq> cl_bitmap (fold (do_oop_work g) fs c) \<and>
                cl_bitmap (fold (do_oop_work g) fs c) \<subseteq> cl_bitmap c \<union> set fs \<and>
                (cl_bitmap (fold (do_oop_work g) fs c) = cl_bitmap c \<longrightarrow>
                 cl_stack (fold (do_oop_work g) fs c) = cl_stack c)" for fs c
    proof (induction fs arbitrary: c)
      case Nil
      show ?case by simp
    next
      case (Cons f fs)
      show ?case
        using Cons.IH [of "do_oop_work g f c"]
        by (auto simp: do_oop_work_def Let_def split: if_splits)
    qed
    have sub: "set (fields_of g obj) \<subseteq> ?T"
    proof (cases "map_of g obj")
      case None
      then show ?thesis by (simp add: fields_of_def)
    next
      case (Some d)
      then have "(obj, d) \<in> set g" by (rule map_of_SomeD)
      then have "set (obj_fields d) \<subseteq> ?T" by force
      with Some show ?thesis by (simp add: fields_of_def)
    qed
    have fin: "finite ?T" by simp
    let ?c = "cl\<lparr>cl_stack := rest\<rparr>"
    let ?c' = "oop_iterate g obj ?c"
    note s = scan [of ?c "fields_of g obj", folded oop_iterate_def]
    show "((g, ?c'), (g, cl)) \<in> ?R"
    proof (cases "cl_bitmap ?c' = cl_bitmap cl")
      case True
      with s have "cl_stack ?c' = rest" by simp
      with True st show ?thesis by simp
    next
      case False
      from s have mono: "cl_bitmap cl \<subseteq> cl_bitmap ?c'"
        and new: "cl_bitmap ?c' \<subseteq> cl_bitmap cl \<union> set (fields_of g obj)"
        by simp_all
      from False mono obtain x where x: "x \<in> cl_bitmap ?c'" "x \<notin> cl_bitmap cl"
        by blast
      with new sub have "x \<in> ?T" by blast
      with x mono have "?T - cl_bitmap ?c' \<subset> ?T - cl_bitmap cl" by blast
      then have "card (?T - cl_bitmap ?c') < card (?T - cl_bitmap cl)"
        using fin by (intro psubset_card_mono) auto
      then show ?thesis by simp
    qed
  qed
qed

declare mark_loop.simps [simp del]

text \<open>
  \<^verbatim>\<open>MSweepHeap::mark\<close>: a fresh stack and a closure over the live bitmap, the roots,
  then the loop. \<open>mark_closure\<close> is the closure when the loop has ended.
\<close>

definition mark_closure :: "host \<Rightarrow> MSweepHeap \<Rightarrow> ScanOopClosure" where
  "mark_closure h s =
     (let cl = \<lparr>cl_stack = [], cl_bitmap = mark_bitmap s, cl_pushed = [], cl_log = trace s\<rparr>
      in mark_loop (objects s) (do_roots h (objects s) cl))"

definition mark :: "host \<Rightarrow> MSweepHeap \<Rightarrow> MSweepHeap" where
  "mark h s =
     (let cl = mark_closure h s
      in s\<lparr>mark_bitmap := cl_bitmap cl, trace := cl_log cl\<rparr>)"

text \<open>
  The objects the claims call reachable: the non-null roots and, from a reachable
  object, the non-null values of its reference slots.
\<close>

inductive_set reachable :: "object_table \<Rightarrow> oop list \<Rightarrow> oop set"
  for g :: object_table and rs :: "oop list" where
    root: "r \<in> set rs \<Longrightarrow> r \<noteq> NULL \<Longrightarrow> r \<in> reachable g rs"
  | field: "x \<in> reachable g rs \<Longrightarrow> y \<in> set (fields_of g x) \<Longrightarrow> y \<noteq> NULL
            \<Longrightarrow> y \<in> reachable g rs"

text \<open>
  The invariant of the marking loop, for a bitmap that held \<open>bm0\<close> when marking
  began: no object has been pushed twice, the marked addresses are those of \<open>bm0\<close>
  and the pushed objects, the stack holds pushed objects without repetition, and every
  pushed object that has left the stack has all its non-null fields marked.
\<close>

definition mark_inv :: "object_table \<Rightarrow> oop set \<Rightarrow> ScanOopClosure \<Rightarrow> bool" where
  "mark_inv g bm0 cl \<longleftrightarrow>
     distinct (cl_pushed cl) \<and>
     cl_bitmap cl = bm0 \<union> set (cl_pushed cl) \<and>
     set (cl_pushed cl) \<inter> bm0 = {} \<and>
     NULL \<notin> set (cl_pushed cl) \<and>
     distinct (cl_stack cl) \<and>
     set (cl_stack cl) \<subseteq> set (cl_pushed cl) \<and>
     (\<forall>x \<in> set (cl_pushed cl) - set (cl_stack cl).
        \<forall>y \<in> set (fields_of g x). y \<noteq> NULL \<longrightarrow> y \<in> cl_bitmap cl)"

section \<open>Sweeping\<close>

text \<open>
  Modelled from the spec: \<^verbatim>\<open>MSweepFreeList::append\<close> and
  \<^verbatim>\<open>MSweepFreeListSpace::object_iterate\<close> of \<^verbatim>\<open>msweepFreeListSpace.hpp\<close>, which is not
  among the collector's files here. Appending adds the chunk at the end of the free
  list; the iteration hands every object of the space, in address order, to the
  closure.
\<close>

definition free_list_append :: "MSweepNode \<Rightarrow> MSweepNode list \<Rightarrow> MSweepNode list" where
  "free_list_append node fl = fl @ [node]"

definition object_iterate :: "(oop \<Rightarrow> MSweepHeap \<Rightarrow> MSweepHeap) \<Rightarrow> MSweepHeap \<Rightarrow> MSweepHeap" where
  "object_iterate cl s =
     fold cl (map fst (objects s)) (s\<lparr>trace := trace s @ [Object_iterate]\<rparr>)"

text \<open>\<^verbatim>\<open>SweepClosure::do_object\<close> and \<^verbatim>\<open>MSweepHeap::sweep\<close>.\<close>

definition do_object :: "host \<Rightarrow> oop \<Rightarrow> MSweepHeap \<Rightarrow> MSweepHeap" where
  "do_object h obj s =
     (if obj \<notin> mark_bitmap s then
        (let s1 = (if 100 < size_of (objects s) obj
                   then s\<lparr>trace := trace s @
                            [Log Info ''Sweeping obj %li'' [Size (size_of (objects s) obj)]]\<rparr>
                   else s);
             node = \<lparr>node_start = obj,
                     node_size = adjust_chunk_size h (size_of (objects s) obj)\<rparr>
         in s1\<lparr>free_list := free_list_append node (free_list s1)\<rparr>)
      else s)"

definition sweep :: "host \<Rightarrow> MSweepHeap \<Rightarrow> MSweepHeap" where
  "sweep h s = object_iterate (do_object h) s"

section \<open>The collection cycle\<close>

text \<open>
  \<^verbatim>\<open>MSweepHeap::prologue\<close>: commit the live bitmap's backing storage and return at once
  when that fails; otherwise retire the TLABs with \<^verbatim>\<open>ensure_parsability(true)\<close>.
\<close>

definition prologue :: "host \<Rightarrow> MSweepHeap \<Rightarrow> MSweepHeap" where
  "prologue h s =
     (let ok = os_commit h bitmap_region;
          s1 = s\<lparr>trace := trace s @ [Commit_memory bitmap_region ok]\<rparr>
      in if \<not> ok then s1
         else s1\<lparr>trace := trace s1 @ [Ensure_parsability True]\<rparr>)"

text \<open>
  \<^verbatim>\<open>MSweepHeap::epilogue\<close>. Modelled from the spec: what \<^verbatim>\<open>os::uncommit_memory\<close> does
  to the bitmap, whose storage is paged out and whose bits read as reset afterwards.
\<close>

definition epilogue :: "host \<Rightarrow> MSweepHeap \<Rightarrow> MSweepHeap" where
  "epilogue h s =
     (let ok = os_uncommit h bitmap_region;
          s1 = s\<lparr>trace := trace s @ [Uncommit_memory bitmap_region ok]\<rparr>
      in if \<not> ok
         then s1\<lparr>trace := trace s1 @
                   [Log Warning ''Could not uncommit native memory for marking bitmap'' []]\<rparr>
         else s1\<lparr>mark_bitmap := {}\<rparr>)"

text \<open>\<^verbatim>\<open>MSweepHeap::entry_collect\<close>; the cause is not looked at.\<close>

definition entry_collect :: "host \<Rightarrow> Cause \<Rightarrow> MSweepHeap \<Rightarrow> MSweepHeap" where
  "entry_collect h cause s = epilogue h (sweep h (mark h (prologue h s)))"

text \<open>
  \<^verbatim>\<open>MSweepHeap::vmentry_collect\<close>: the operation \<^verbatim>\<open>VM_MSweepGC\<close> takes the heap lock,
  calls \<^verbatim>\<open>entry_collect\<close> and releases the lock.
\<close>

definition vmentry_collect :: "host \<Rightarrow> Cause \<Rightarrow> MSweepHeap \<Rightarrow> MSweepHeap" where
  "vmentry_collect h cause s =
     (let s1 = s\<lparr>trace := trace s @ [Heap_lock_lock]\<rparr>;
          s2 = entry_collect h cause s1
      in s2\<lparr>trace := trace s2 @ [Heap_lock_unlock]\<rparr>)"

text \<open>
  \<^verbatim>\<open>MSweepHeap::collect\<close>, the public entry point, and \<^verbatim>\<open>do_full_collection\<close>, which
  passes the heap's current cause \<^verbatim>\<open>gc_cause()\<close> to it.
\<close>

definition collect :: "host \<Rightarrow> Cause \<Rightarrow> MSweepHeap \<Rightarrow> vm_error + MSweepHeap" where
  "collect h cause s =
     (let handled =
            (if \<not> at_safepoint h then Inl (assert_failed ''Expected at safepoint'')
             else Inr (s\<lparr>trace := trace s @
                          [Log Info ''GC request for %s is handled'' [Cause_name cause],
                           Compute_new_size]\<rparr>))
      in case cause of
           metadata_GC_threshold \<Rightarrow> handled
         | metadata_GC_clear_soft_refs \<Rightarrow> handled
         | _ \<Rightarrow> Inr (s\<lparr>trace := trace s @
                        [Log Info ''GC request for %s is ignored'' [Cause_name cause]]\<rparr>))"

definition do_full_collection :: "host \<Rightarrow> Cause \<Rightarrow> bool \<Rightarrow> MSweepHeap \<Rightarrow> vm_error + MSweepHeap" where
  "do_full_collection h gc_cause clear_all_soft_refs s = collect h gc_cause s"

section \<open>Allocation\<close>

text \<open>
  \<^verbatim>\<open>MSweepHeap::allocate_work\<close>: the size is checked, the space allocates, the result
  is checked. The null pointer is the answer of a space that has no fitting chunk. The
  parameter \<^verbatim>\<open>verbose\<close> is not read by the code and is left out.
\<close>

definition allocate_work :: "host \<Rightarrow> size_t \<Rightarrow> MSweepHeap \<Rightarrow> vm_error + HeapWord_ptr \<times> MSweepHeap" where
  "allocate_work h word_size s =
     (if \<not> is_object_aligned h word_size
      then Inl (assert_failed ''Allocation size should be aligned'')
      else
        (let (res, fl) = space_allocate h (free_list s) word_size;
             s1 = s\<lparr>free_list := fl, trace := trace s @ [Space_allocate word_size]\<rparr>
         in if \<not> is_object_aligned_ptr h res
            then Inl (assert_failed ''Object should be aligned'')
            else Inr (res, s1)))"

text \<open>\<^verbatim>\<open>MSweepHeap::allocate_or_collect_work\<close>.\<close>

definition allocate_or_collect_work ::
  "host \<Rightarrow> size_t \<Rightarrow> MSweepHeap \<Rightarrow> vm_error + HeapWord_ptr \<times> MSweepHeap" where
  "allocate_or_collect_work h word_size s =
     (case allocate_work h word_size s of
        Inl e \<Rightarrow> Inl e
      | Inr (res, s1) \<Rightarrow>
          if res = NULL
          then allocate_work h word_size (vmentry_collect h allocation_failure s1)
          else Inr (res, s1))"

text \<open>
  \<^verbatim>\<open>MSweepHeap::allocate_new_tlab\<close>. \<open>actual_size\<close> is what the caller's variable holds
  before the call; the second component of the result is what it holds afterwards.
\<close>

definition allocate_new_tlab ::
  "host \<Rightarrow> size_t \<Rightarrow> size_t \<Rightarrow> size_t \<Rightarrow> MSweepHeap
     \<Rightarrow> vm_error + HeapWord_ptr \<times> size_t \<times> MSweepHeap" where
  "allocate_new_tlab h min_size requested_size actual_size s =
     (case clamp requested_size min_size (max_tlab_size s) of
        Inl e \<Rightarrow> Inl e
      | Inr clamped \<Rightarrow>
          (let sz = align_up clamped (MinObjAlignment h) in
           if \<not> is_object_aligned h sz
             then Inl (assert_failed ''Size honors object alignment'')
           else if \<not> min_size \<le> sz
             then Inl (assert_failed ''Size honors min size'')
           else if \<not> sz \<le> max_tlab_size s
             then Inl (assert_failed ''Size honors max size'')
           else if \<not> sz \<le> CollectedHeap_max_tlab_size h
             then Inl (assert_failed ''Size honors global max size'')
           else
             (case allocate_or_collect_work h sz s of
                Inl e \<Rightarrow> Inl e
              | Inr (res, s1) \<Rightarrow>
                  Inr (res, if res \<noteq> NULL then sz else actual_size, s1))))"

text \<open>\<^verbatim>\<open>MSweepHeap::mem_allocate\<close>; the flag it clears is the second component.\<close>

definition mem_allocate ::
  "host \<Rightarrow> size_t \<Rightarrow> MSweepHeap \<Rightarrow> vm_error + HeapWord_ptr \<times> bool \<times> MSweepHeap" where
  "mem_allocate h word_size s =
     (case allocate_or_collect_work h word_size s of
        Inl e \<Rightarrow> Inl e
      | Inr (res, s1) \<Rightarrow> Inr (res, False, s1))"

section \<open>Example inputs\<close>

text \<open>
  Modelled from the spec: \<^verbatim>\<open>MSweepFreeListSpace::allocate\<close> as a first-fit search that
  carves the request from the front of the first chunk that is large enough and
  answers the null pointer when none is. It is the space of the examples only; the
  theorems below hold for every \<open>space_allocate\<close>.
\<close>

fun first_fit :: "MSweepNode list \<Rightarrow> size_t \<Rightarrow> HeapWord_ptr \<times> MSweepNode list" where
  "first_fit [] n = (NULL, [])"
| "first_fit (c # cs) n =
     (if n \<le> node_size c
      then (node_start c,
            if node_size c = n then cs
            else \<lparr>node_start = node_start c + n * HeapWordSize,
                  node_size = node_size c - n\<rparr> # cs)
      else (let (res, cs') = first_fit cs n in (res, c # cs')))"

text \<open>
  A runtime with one-word object alignment whose memory calls succeed, the same with
  two-word alignment, and one whose commit of the live bitmap fails. The only root slots hold the object at address 16
  (twice) and a null reference.
\<close>

definition example_host :: host where
  "example_host =
     \<lparr>LogMinObjAlignment = 0,
      CollectedHeap_max_tlab_size = 1024,
      space_allocate = first_fit,
      adjust_chunk_size = (\<lambda>n. max n 2),
      os_commit = (\<lambda>r. True),
      os_uncommit = (\<lambda>r. True),
      roots = [16, NULL, 16],
      at_safepoint = True\<rparr>"

definition aligned_host :: host where
  "aligned_host = example_host\<lparr>LogMinObjAlignment := 1\<rparr>"

definition failing_commit_host :: host where
  "failing_commit_host = example_host\<lparr>os_commit := (\<lambda>r. r \<noteq> bitmap_region)\<rparr>"

text \<open>
  Five objects. 16, 32 and 48 refer to each other in a cycle and share 48; 64 and 80
  are referred to by no root and no reachable object; 80 is larger than 100 words. The
  free list holds one chunk of 8 words.
\<close>

definition example_objects :: object_table where
  "example_objects =
     [(16, \<lparr>obj_size = 2, obj_fields = [32, 48, NULL]\<rparr>),
      (32, \<lparr>obj_size = 2, obj_fields = [48, 16]\<rparr>),
      (48, \<lparr>obj_size = 2, obj_fields = [48]\<rparr>),
      (64, \<lparr>obj_size = 1, obj_fields = [16, 80]\<rparr>),
      (80, \<lparr>obj_size = 200, obj_fields = []\<rparr>)]"

definition example_heap :: MSweepHeap where
  "example_heap =
     \<lparr>max_tlab_size = 512,
      mark_bitmap = {},
      free_list = [\<lparr>node_start = 2048, node_size = 8\<rparr>],
      objects = example_objects,
      trace = []\<rparr>"

definition example_flags :: flags where
  "example_flags =
     \<lparr>UseMSweepGC = True,
      ExitOnOutOfMemoryError = False,
      ExitOnOutOfMemoryError_is_default = True,
      MSweepMaxTLABSize = 1024,
      MinTLABSize = 2048,
      UseCountedLoopSafepoints = False,
      UseCountedLoopSafepoints_is_default = True,
      LoopStripMiningIter = 0,
      LoopStripMiningIter_is_default = True,
      flag_log = []\<rparr>"

text \<open>
  The heap that start-up builds for the two-word-aligned runtime from a configured
  maximum of 2048 bytes and one free chunk of 512 words.
\<close>

definition fresh_heap :: MSweepHeap where
  "fresh_heap =
     initialize aligned_host (example_flags\<lparr>MSweepMaxTLABSize := 2048\<rparr>)
       [\<lparr>node_start = 4096, node_size = 512\<rparr>]"

text \<open>
  \<open>calls\<close> keeps the calls of a trace and drops its log lines. \<open>cycle_event\<close>
  holds for the calls that only the phases of a cycle make: committing and uncommitting the live
  bitmap (prologue, epilogue), retiring the TLABs (prologue), walking the roots (mark)
  and iterating over the space (sweep).
\<close>

fun is_log :: "event \<Rightarrow> bool" where
  "is_log (Log l m a) = True"
| "is_log e = False"

definition calls :: "event list \<Rightarrow> event list" where
  "calls tr = filter (\<lambda>e. \<not> is_log e) tr"

fun cycle_event :: "event \<Rightarrow> bool" where
  "cycle_event (Commit_memory r ok) = (r = bitmap_region)"
| "cycle_event (Uncommit_memory r ok) = (r = bitmap_region)"
| "cycle_event (Ensure_parsability b) = True"
| "cycle_event Do_roots = True"
| "cycle_event Object_iterate = True"
| "cycle_event e = False"

section \<open>Unfolding sets\<close>

lemmas example_defs =
  example_host_def aligned_host_def failing_commit_host_def example_heap_def
  example_objects_def example_flags_def fresh_heap_def initialize_def

lemmas align_defs =
  HeapWordSize_def LogHeapWordSize_def MinObjAlignment_def MinObjAlignmentInBytes_def
  alignment_mask_def is_aligned_def align_down_def align_up_def is_object_aligned_def
  is_object_aligned_ptr_def align_object_size_def clamp_def

lemmas cycle_defs =
  prologue_def mark_def mark_closure_def mark_loop.simps do_roots_def oop_iterate_def
  do_oop_work_def
  sweep_def object_iterate_def do_object_def free_list_append_def epilogue_def
  entry_collect_def vmentry_collect_def size_of_def fields_of_def

lemmas alloc_defs =
  allocate_work_def allocate_or_collect_work_def allocate_new_tlab_def mem_allocate_def

section \<open>Startup: the TLAB maximum against the global minimum\<close>

text \<open>
  C9. At startup (the sanity check on \<^verbatim>\<open>UseMSweepGC\<close> holding), a configured
  \<^verbatim>\<open>MSweepMaxTLABSize\<close> below \<^verbatim>\<open>MinTLABSize\<close> is set to \<^verbatim>\<open>MinTLABSize\<close> and one
  warning is logged; a value that is not below it stays as it is and nothing is
  logged. In both cases initialization returns the flags: it does not end the VM.
\<close>

theorem initialize_adjusts_max_tlab:
  assumes "UseMSweepGC (base f0)"
  shows "\<exists>f. MSweepArguments_initialize compiler2 base f0 = Inr f \<and>
           MSweepMaxTLABSize f =
             (if MSweepMaxTLABSize (base f0) < MinTLABSize (base f0)
              then MinTLABSize (base f0) else MSweepMaxTLABSize (base f0)) \<and>
           flag_log f = flag_log (base f0) @
             (if MSweepMaxTLABSize (base f0) < MinTLABSize (base f0)
              then [Log Warning ''MSweepMaxTLABSize < MinTLABSize, adjusting it to %zu''
                      [Size (MinTLABSize (base f0))]]
              else [])"
  using assms
  by (simp add: MSweepArguments_initialize_def Let_def)

theorem initialize_adjusts_max_tlab_witness:
  "\<exists>f. MSweepArguments_initialize True id example_flags = Inr f \<and>
       MSweepMaxTLABSize f = 2048 \<and>
       flag_log f = [Log Warning ''MSweepMaxTLABSize < MinTLABSize, adjusting it to %zu''
                      [Size 2048]]"
  using initialize_adjusts_max_tlab [of id example_flags True]
  by (simp add: example_flags_def)

section \<open>The allocation contract\<close>

text \<open>
  C8. \<^verbatim>\<open>allocate_work\<close> checks that its size is object-aligned before it touches the
  space. For an aligned size that check does not fire; for an unaligned size the call
  ends in the failed assertion, not in a returned pointer (null or not).
\<close>

theorem allocate_work_size_contract:
  "(is_object_aligned h word_size \<longrightarrow>
      allocate_work h word_size s \<noteq>
        Inl (assert_failed ''Allocation size should be aligned'')) \<and>
   (\<not> is_object_aligned h word_size \<longrightarrow>
      allocate_work h word_size s =
        Inl (assert_failed ''Allocation size should be aligned''))"
  by (simp add: allocate_work_def Let_def split: prod.splits)

theorem allocate_work_size_contract_witness:
  "allocate_work aligned_host 4 example_heap \<noteq>
     Inl (assert_failed ''Allocation size should be aligned'') \<and>
   allocate_work aligned_host 3 example_heap =
     Inl (assert_failed ''Allocation size should be aligned'')"
  using allocate_work_size_contract [of aligned_host 4 example_heap]
        allocate_work_size_contract [of aligned_host 3 example_heap]
  by (simp add: align_defs example_defs)

section \<open>The output parameter of a failed TLAB allocation\<close>

text \<open>
  C10. When \<^verbatim>\<open>allocate_new_tlab\<close> returns the null pointer, the caller's
  \<^verbatim>\<open>actual_size\<close> holds what it held before the call; it holds the clamped and
  aligned size exactly when the returned pointer is not null.
\<close>

theorem allocate_new_tlab_actual_size_frame:
  assumes "allocate_new_tlab h min_size requested_size actual_size s = Inr (res, actual', s')"
  shows "(res = NULL \<longrightarrow> actual' = actual_size) \<and>
         (res \<noteq> NULL \<longrightarrow>
            actual' = align_up (min (max requested_size min_size) (max_tlab_size s))
                               (MinObjAlignment h))"
  using assms
  by (auto simp: allocate_new_tlab_def clamp_def Let_def
           split: sum.splits if_splits prod.splits)

theorem allocate_new_tlab_actual_size_frame_witness:
  "(\<exists>s'. allocate_new_tlab example_host 4 600 77 example_heap = Inr (NULL, 77, s')) \<and>
   (\<exists>s'. allocate_new_tlab example_host 4 16 77 example_heap = Inr (80, 16, s'))"
proof
  have "\<exists>a s'. allocate_new_tlab example_host 4 600 77 example_heap = Inr (NULL, a, s')"
    by (simp add: alloc_defs cycle_defs align_defs example_defs Let_def)
  then obtain a s' where
    e: "allocate_new_tlab example_host 4 600 77 example_heap = Inr (NULL, a, s')"
    by blast
  from allocate_new_tlab_actual_size_frame [OF e] have "a = 77" by simp
  with e show "\<exists>s'. allocate_new_tlab example_host 4 600 77 example_heap = Inr (NULL, 77, s')"
    by blast
next
  have "\<exists>a s'. allocate_new_tlab example_host 4 16 77 example_heap = Inr (80, a, s')"
    by (simp add: alloc_defs cycle_defs align_defs example_defs Let_def)
  then obtain a s' where
    e: "allocate_new_tlab example_host 4 16 77 example_heap = Inr (80, a, s')"
    by blast
  from allocate_new_tlab_actual_size_frame [OF e] have "a = 16"
    by (simp add: align_defs example_defs)
  with e show "\<exists>s'. allocate_new_tlab example_host 4 16 77 example_heap = Inr (80, 16, s')"
    by blast
qed

section \<open>The public collection entry point\<close>

text \<open>
  C6. For the two metadata causes \<^verbatim>\<open>collect\<close> (at a safepoint, as it asserts) logs
  that the request is handled and calls \<^verbatim>\<open>MetaspaceGC::compute_new_size\<close>; for every
  other cause it logs that the request is ignored and does nothing else. Whatever the
  cause, a returning \<^verbatim>\<open>collect\<close> makes none of the calls of prologue, mark, sweep or
  epilogue and leaves the bitmap, the free list, the objects and the TLAB cap alone.
\<close>

theorem collect_dispatch:
  "(cause \<in> {metadata_GC_threshold, metadata_GC_clear_soft_refs} \<longrightarrow> at_safepoint h \<longrightarrow>
      collect h cause s =
        Inr (s\<lparr>trace := trace s @
                 [Log Info ''GC request for %s is handled'' [Cause_name cause],
                  Compute_new_size]\<rparr>)) \<and>
   (cause \<notin> {metadata_GC_threshold, metadata_GC_clear_soft_refs} \<longrightarrow>
      collect h cause s =
        Inr (s\<lparr>trace := trace s @
                 [Log Info ''GC request for %s is ignored'' [Cause_name cause]]\<rparr>)) \<and>
   (\<forall>s'. collect h cause s = Inr s' \<longrightarrow>
      filter cycle_event (trace s') = filter cycle_event (trace s) \<and>
      mark_bitmap s' = mark_bitmap s \<and> free_list s' = free_list s \<and>
      objects s' = objects s \<and> max_tlab_size s' = max_tlab_size s)"
  by (cases cause) (auto simp: collect_def)

theorem collect_dispatch_witness:
  "collect example_host metadata_GC_threshold example_heap =
     Inr (example_heap\<lparr>trace :=
            [Log Info ''GC request for %s is handled'' [Cause_name metadata_GC_threshold],
             Compute_new_size]\<rparr>) \<and>
   collect example_host (other_cause 7) example_heap =
     Inr (example_heap\<lparr>trace :=
            [Log Info ''GC request for %s is ignored'' [Cause_name (other_cause 7)]]\<rparr>)"
  using collect_dispatch [of metadata_GC_threshold example_host example_heap]
        collect_dispatch [of "other_cause 7" example_host example_heap]
  by (simp add: example_defs)

section \<open>Sweep\<close>

lemma fold_do_object:
  "mark_bitmap (fold (do_object h) os s) = mark_bitmap s \<and>
   objects (fold (do_object h) os s) = objects s \<and>
   max_tlab_size (fold (do_object h) os s) = max_tlab_size s \<and>
   free_list (fold (do_object h) os s) =
     free_list s @
     map (\<lambda>obj. \<lparr>node_start = obj, node_size = adjust_chunk_size h (size_of (objects s) obj)\<rparr>)
         (filter (\<lambda>obj. obj \<notin> mark_bitmap s) os)"
proof (induction os arbitrary: s)
  case Nil
  show ?case by simp
next
  case (Cons x xs)
  show ?case
    using Cons.IH [of "do_object h x s"]
    by (simp add: do_object_def free_list_append_def Let_def)
qed

text \<open>
  C1. After the sweep the free list is the old free list followed by one chunk for
  every visited object whose address is not marked, in visiting order, starting at
  the object's address and of size \<^verbatim>\<open>adjust_chunk_size(obj->size())\<close>; no chunk is
  added for a marked object, and the live bitmap and the objects are as before.
\<close>

theorem sweep_frees_unmarked:
  "free_list (sweep h s) = free_list s @
     map (\<lambda>obj. \<lparr>node_start = obj, node_size = adjust_chunk_size h (size_of (objects s) obj)\<rparr>)
         (filter (\<lambda>obj. obj \<notin> mark_bitmap s) (map fst (objects s))) \<and>
   mark_bitmap (sweep h s) = mark_bitmap s \<and>
   objects (sweep h s) = objects s"
  by (simp add: sweep_def object_iterate_def fold_do_object)

theorem sweep_frees_unmarked_witness:
  "free_list (sweep example_host (example_heap\<lparr>mark_bitmap := {16, 32, 48}\<rparr>)) =
     [\<lparr>node_start = 2048, node_size = 8\<rparr>, \<lparr>node_start = 64, node_size = 2\<rparr>,
      \<lparr>node_start = 80, node_size = 200\<rparr>] \<and>
   mark_bitmap (sweep example_host (example_heap\<lparr>mark_bitmap := {16, 32, 48}\<rparr>)) =
     {16, 32, 48}"
  using sweep_frees_unmarked [of example_host "example_heap\<lparr>mark_bitmap := {16, 32, 48}\<rparr>"]
  by (simp add: example_defs size_of_def)

section \<open>The calls of a cycle\<close>

lemma calls_simps:
  "calls [] = []"
  "calls (e # es) = (if is_log e then calls es else e # calls es)"
  "calls (xs @ ys) = calls xs @ calls ys"
  by (simp_all add: calls_def)

lemma filter_do_oop_work:
  assumes "\<And>l m a. \<not> P (Log l m a)"
  shows "filter P (cl_log (do_oop_work g v cl)) = filter P (cl_log cl)"
  using assms by (simp add: do_oop_work_def Let_def)

lemma filter_scan:
  assumes "\<And>l m a. \<not> P (Log l m a)"
  shows "filter P (cl_log (fold (do_oop_work g) fs cl)) = filter P (cl_log cl)"
  by (induction fs arbitrary: cl) (simp_all add: filter_do_oop_work [of P, OF assms])

lemma filter_mark_loop:
  assumes "\<And>l m a. \<not> P (Log l m a)"
  shows "filter P (cl_log (mark_loop g cl)) = filter P (cl_log cl)"
proof (induction g cl rule: mark_loop.induct)
  case (1 g cl)
  show ?case
  proof (cases "cl_stack cl")
    case Nil
    then show ?thesis by (subst mark_loop.simps) simp
  next
    case (Cons obj rest)
    then show ?thesis
      using "1.IH" [OF Cons]
      by (subst mark_loop.simps) (simp add: oop_iterate_def filter_scan [of P, OF assms])
  qed
qed

lemma filter_mark:
  assumes "\<And>l m a. \<not> P (Log l m a)"
  shows "filter P (trace (mark h s)) = filter P (trace s) @ filter P [Do_roots]"
  by (simp add: mark_def mark_closure_def do_roots_def Let_def
                filter_mark_loop [of P, OF assms] filter_scan [of P, OF assms])

lemma filter_sweep_fold:
  assumes "\<And>l m a. \<not> P (Log l m a)"
  shows "filter P (trace (fold (do_object h) os s)) = filter P (trace s)"
  using assms
  by (induction os arbitrary: s) (simp_all add: do_object_def free_list_append_def Let_def)

lemma filter_sweep:
  assumes "\<And>l m a. \<not> P (Log l m a)"
  shows "filter P (trace (sweep h s)) = filter P (trace s) @ filter P [Object_iterate]"
  by (simp add: sweep_def object_iterate_def filter_sweep_fold [of P, OF assms])

lemma filter_entry_collect:
  assumes "\<And>l m a. \<not> P (Log l m a)"
  shows "filter P (trace (entry_collect h cause s)) =
           filter P (trace s) @
           filter P ([Commit_memory bitmap_region (os_commit h bitmap_region)] @
                     (if os_commit h bitmap_region then [Ensure_parsability True] else []) @
                     [Do_roots, Object_iterate,
                      Uncommit_memory bitmap_region (os_uncommit h bitmap_region)])"
  using assms
  by (simp add: entry_collect_def epilogue_def Let_def filter_sweep [of P, OF assms]
                filter_mark [of P, OF assms] prologue_def)

lemma calls_entry_collect:
  "calls (trace (entry_collect h cause s)) =
     calls (trace s) @
     [Commit_memory bitmap_region (os_commit h bitmap_region)] @
     (if os_commit h bitmap_region then [Ensure_parsability True] else []) @
     [Do_roots, Object_iterate, Uncommit_memory bitmap_region (os_uncommit h bitmap_region)]"
  unfolding calls_def
  by (subst filter_entry_collect) simp_all

lemma cycle_events_entry_collect:
  "filter cycle_event (trace (entry_collect h cause s)) =
     filter cycle_event (trace s) @
     [Commit_memory bitmap_region (os_commit h bitmap_region)] @
     (if os_commit h bitmap_region then [Ensure_parsability True] else []) @
     [Do_roots, Object_iterate, Uncommit_memory bitmap_region (os_uncommit h bitmap_region)]"
  by (subst filter_entry_collect) simp_all

lemma calls_allocate_work:
  assumes "allocate_work h word_size s = Inr (res, s1)"
  shows "calls (trace s1) = calls (trace s) @ [Space_allocate word_size]"
  using assms
  by (auto simp: allocate_work_def calls_def Let_def split: if_splits prod.splits)

section \<open>Allocation with one collection and one retry\<close>

text \<open>
  C3. \<^verbatim>\<open>allocate_or_collect_work\<close> first calls \<^verbatim>\<open>allocate_work\<close>. A failed assertion
  there ends the call. A non-null result is returned as it is, after that one call to
  the space. A null result, and only a null result, is followed by one collection
  (one \<^verbatim>\<open>vmentry_collect\<close> with the cause allocation failure, hence one prologue,
  mark, sweep and epilogue) and one more \<^verbatim>\<open>allocate_work\<close>, whose result, null or
  not, is the result of the call: the calls made are the first allocation, the cycle
  and the second allocation, and nothing after it.
\<close>

theorem allocate_or_collect_work_retry:
  "(\<forall>e. allocate_work h word_size s = Inl e \<longrightarrow>
        allocate_or_collect_work h word_size s = Inl e) \<and>
   (\<forall>res s1. allocate_work h word_size s = Inr (res, s1) \<and> res \<noteq> NULL \<longrightarrow>
        allocate_or_collect_work h word_size s = Inr (res, s1) \<and>
        calls (trace s1) = calls (trace s) @ [Space_allocate word_size]) \<and>
   (\<forall>s1. allocate_work h word_size s = Inr (NULL, s1) \<longrightarrow>
        allocate_or_collect_work h word_size s =
          allocate_work h word_size (vmentry_collect h allocation_failure s1) \<and>
        (\<forall>res s2. allocate_or_collect_work h word_size s = Inr (res, s2) \<longrightarrow>
           calls (trace s2) =
             calls (trace s) @
             [Space_allocate word_size, Heap_lock_lock,
              Commit_memory bitmap_region (os_commit h bitmap_region)] @
             (if os_commit h bitmap_region then [Ensure_parsability True] else []) @
             [Do_roots, Object_iterate,
              Uncommit_memory bitmap_region (os_uncommit h bitmap_region),
              Heap_lock_unlock, Space_allocate word_size]))"
proof (intro conjI allI impI)
  fix e assume "allocate_work h word_size s = Inl e"
  then show "allocate_or_collect_work h word_size s = Inl e"
    by (simp add: allocate_or_collect_work_def)
next
  fix res s1 assume a: "allocate_work h word_size s = Inr (res, s1) \<and> res \<noteq> NULL"
  then show "allocate_or_collect_work h word_size s = Inr (res, s1)"
    by (simp add: allocate_or_collect_work_def)
  from a show "calls (trace s1) = calls (trace s) @ [Space_allocate word_size]"
    by (blast intro: calls_allocate_work)
next
  fix s1 assume a: "allocate_work h word_size s = Inr (NULL, s1)"
  then show r: "allocate_or_collect_work h word_size s =
          allocate_work h word_size (vmentry_collect h allocation_failure s1)"
    by (simp add: allocate_or_collect_work_def)
  fix res s2 assume b: "allocate_or_collect_work h word_size s = Inr (res, s2)"
  let ?s' = "vmentry_collect h allocation_failure s1"
  from a have t1: "calls (trace s1) = calls (trace s) @ [Space_allocate word_size]"
    by (rule calls_allocate_work)
  from b r have "allocate_work h word_size ?s' = Inr (res, s2)" by simp
  then have t2: "calls (trace s2) = calls (trace ?s') @ [Space_allocate word_size]"
    by (rule calls_allocate_work)
  have t3: "calls (trace ?s') =
      calls (trace s1) @
      [Heap_lock_lock, Commit_memory bitmap_region (os_commit h bitmap_region)] @
      (if os_commit h bitmap_region then [Ensure_parsability True] else []) @
      [Do_roots, Object_iterate,
       Uncommit_memory bitmap_region (os_uncommit h bitmap_region), Heap_lock_unlock]"
    by (simp add: vmentry_collect_def Let_def calls_entry_collect calls_simps)
  from t1 t2 t3 show "calls (trace s2) =
             calls (trace s) @
             [Space_allocate word_size, Heap_lock_lock,
              Commit_memory bitmap_region (os_commit h bitmap_region)] @
             (if os_commit h bitmap_region then [Ensure_parsability True] else []) @
             [Do_roots, Object_iterate,
              Uncommit_memory bitmap_region (os_uncommit h bitmap_region),
              Heap_lock_unlock, Space_allocate word_size]"
    by simp
qed

theorem allocate_or_collect_work_retry_witness:
  "(\<exists>s1. allocate_or_collect_work example_host 4 example_heap = Inr (2048, s1) \<and>
          calls (trace s1) = [Space_allocate 4]) \<and>
   (\<exists>s2. allocate_or_collect_work example_host 100 example_heap = Inr (80, s2) \<and>
          calls (trace s2) =
            [Space_allocate 100, Heap_lock_lock, Commit_memory bitmap_region True,
             Ensure_parsability True, Do_roots, Object_iterate,
             Uncommit_memory bitmap_region True, Heap_lock_unlock, Space_allocate 100]) \<and>
   allocate_or_collect_work aligned_host 3 example_heap =
     Inl (assert_failed ''Allocation size should be aligned'')"
proof (intro conjI)
  have "\<exists>s1. allocate_work example_host 4 example_heap = Inr (2048, s1)"
    by (simp add: allocate_work_def align_defs example_defs)
  then obtain s1 where a: "allocate_work example_host 4 example_heap = Inr (2048, s1)"
    by blast
  with allocate_or_collect_work_retry [of example_host 4 example_heap]
  have "allocate_or_collect_work example_host 4 example_heap = Inr (2048, s1) \<and>
        calls (trace s1) = calls (trace example_heap) @ [Space_allocate 4]"
    by simp
  then show "\<exists>s1. allocate_or_collect_work example_host 4 example_heap = Inr (2048, s1) \<and>
          calls (trace s1) = [Space_allocate 4]"
    by (auto simp: example_heap_def calls_simps)
next
  have "\<exists>s1. allocate_work example_host 100 example_heap = Inr (NULL, s1)"
    by (simp add: allocate_work_def align_defs example_defs)
  then obtain s1 where a: "allocate_work example_host 100 example_heap = Inr (NULL, s1)"
    by blast
  have "\<exists>s2. allocate_or_collect_work example_host 100 example_heap = Inr (80, s2)"
    by (simp add: alloc_defs cycle_defs align_defs example_defs Let_def)
  then obtain s2 where
    b: "allocate_or_collect_work example_host 100 example_heap = Inr (80, s2)"
    by blast
  from allocate_or_collect_work_retry [of example_host 100 example_heap] a b
  have "calls (trace s2) =
          calls (trace example_heap) @
          [Space_allocate 100, Heap_lock_lock,
           Commit_memory bitmap_region (os_commit example_host bitmap_region)] @
          (if os_commit example_host bitmap_region then [Ensure_parsability True] else []) @
          [Do_roots, Object_iterate,
           Uncommit_memory bitmap_region (os_uncommit example_host bitmap_region),
           Heap_lock_unlock, Space_allocate 100]"
    by blast
  with b show "\<exists>s2. allocate_or_collect_work example_host 100 example_heap = Inr (80, s2) \<and>
          calls (trace s2) =
            [Space_allocate 100, Heap_lock_lock, Commit_memory bitmap_region True,
             Ensure_parsability True, Do_roots, Object_iterate,
             Uncommit_memory bitmap_region True, Heap_lock_unlock, Space_allocate 100]"
    by (auto simp: example_defs calls_simps)
next
  have "allocate_work aligned_host 3 example_heap =
          Inl (assert_failed ''Allocation size should be aligned'')"
    by (simp add: allocate_work_def align_defs example_defs)
  with allocate_or_collect_work_retry [of aligned_host 3 example_heap]
  show "allocate_or_collect_work aligned_host 3 example_heap =
          Inl (assert_failed ''Allocation size should be aligned'')"
    by blast
qed

section \<open>Rounding up to the object alignment\<close>

lemma and_not_mask_eq: "(x :: 64 word) AND NOT (mask k) = push_bit k (drop_bit k x)"
  by (rule bit_eqI) (auto simp: bit_simps)

lemma alignment_mask_pow: "alignment_mask (2 ^ k) = mask k"
  by (simp add: alignment_mask_def mask_eq_decr_exp)

lemma unat_align_down:
  "unat (align_down x (2 ^ k)) = (unat x div 2 ^ k) * 2 ^ k"
proof -
  have le: "(unat x div 2 ^ k) * 2 ^ k \<le> unat x"
    by simp
  have "unat (push_bit k (drop_bit k x)) = take_bit 64 (push_bit k (drop_bit k (unat x)))"
    by (simp add: unsigned_push_bit_eq unat_drop_bit_eq)
  also have "\<dots> = (unat x div 2 ^ k) * 2 ^ k mod 2 ^ 64"
    by (simp add: take_bit_eq_mod push_bit_eq_mult drop_bit_eq_div)
  also have "\<dots> = (unat x div 2 ^ k) * 2 ^ k"
  proof (rule mod_less)
    have "unat x < 2 ^ 64" using unsigned_less [of x] by simp
    with le show "(unat x div 2 ^ k) * 2 ^ k < 2 ^ 64" by linarith
  qed
  finally show ?thesis
    by (simp add: align_down_def alignment_mask_pow and_not_mask_eq)
qed

lemma unat_mask_64:
  assumes "k < 64"
  shows "unat (mask k :: 64 word) = 2 ^ k - 1"
proof -
  have "(2::nat) ^ k < 2 ^ 64"
    using assms by (intro power_strict_increasing) simp_all
  then have lt: "(2::nat) ^ k - 1 < 2 ^ LENGTH(64)" by simp
  have "unat (word_of_nat (2 ^ k - 1) :: 64 word) = (2 ^ k - 1) mod 2 ^ LENGTH(64)"
    by (rule unat_of_nat)
  also have "\<dots> = 2 ^ k - 1"
    using lt by (rule mod_less)
  also have "(word_of_nat (2 ^ k - 1) :: 64 word) = mask k"
    by (simp add: mask_eq_exp_minus_1 of_nat_diff)
  finally show ?thesis .
qed

lemma is_aligned_dvd: "is_aligned x (2 ^ k) \<longleftrightarrow> 2 ^ k dvd unat x"
  by (simp add: is_aligned_def alignment_mask_pow and_mask_dvd_nat)

lemma is_aligned_align_down: "is_aligned (align_down x a) a"
  by (simp add: is_aligned_def align_down_def and.assoc)

lemma is_aligned_align_up: "is_aligned (align_up x a) a"
  by (simp add: align_up_def is_aligned_align_down)

lemma align_up_bounds:
  assumes k: "k < 64" and xm: "x \<le> m" and al: "is_aligned m (2 ^ k)"
  shows "x \<le> align_up x (2 ^ k) \<and> align_up x (2 ^ k) \<le> m"
proof -
  define A where "A = (2::nat) ^ k"
  define B where "B = (2::nat) ^ (64 - k)"
  have Apos: "0 < A" by (simp add: A_def)
  from al obtain q where q: "unat m = A * q"
    by (auto simp: is_aligned_dvd A_def)
  have "unat m < 2 ^ LENGTH(64)" by (rule unsigned_less)
  moreover have AB: "(2::nat) ^ LENGTH(64) = A * B"
    using k by (simp add: A_def B_def power_add [symmetric])
  ultimately have "A * q < A * B" using q by simp
  then have "q < B" by simp
  then have "Suc q \<le> B" by simp
  then have "A * Suc q \<le> A * B" by (rule mult_le_mono2)
  then have room: "unat m + A \<le> 2 ^ LENGTH(64)" using q AB by simp
  from xm have xm': "unat x \<le> unat m" by (simp add: word_le_nat_alt)
  have um: "unat (mask k :: 64 word) = A - 1"
    using k unfolding A_def by (rule unat_mask_64)
  have "unat x + unat (mask k :: 64 word) < 2 ^ LENGTH(64)"
    using xm' room Apos um by linarith
  then have sum: "unat (x + mask k) = unat x + (A - 1)"
    using um by (simp only: unat_add_lem [THEN iffD1])
  define Y where "Y = unat x + (A - 1)"
  have up: "unat (align_up x (2 ^ k)) = (Y div A) * A"
    by (simp add: align_up_def unat_align_down alignment_mask_pow sum Y_def A_def)
  have lo: "unat x \<le> (Y div A) * A"
  proof -
    have "Y = (Y div A) * A + Y mod A"
      by (rule div_mult_mod_eq [symmetric])
    moreover have "Y mod A < A"
      using Apos by (rule mod_less_divisor)
    ultimately show ?thesis unfolding Y_def by linarith
  qed
  have hi: "(Y div A) * A \<le> unat m"
  proof -
    have "Y < A + A * q" using xm' q Apos unfolding Y_def by linarith
    then have "Y < Suc q * A" by (simp add: mult.commute)
    then have "Y div A < Suc q"
      using Apos by (simp add: less_mult_imp_div_less)
    then have "Y div A \<le> q" by simp
    then have "(Y div A) * A \<le> q * A" by (rule mult_le_mono1)
    with q show ?thesis by (simp add: mult.commute)
  qed
  from lo hi up show ?thesis by (simp add: word_le_nat_alt)
qed

section \<open>The TLAB clamp law\<close>

lemma max_tlab_size_entry_collect:
  "max_tlab_size (entry_collect h cause s) = max_tlab_size s"
  by (simp add: entry_collect_def epilogue_def sweep_def object_iterate_def fold_do_object
                mark_def prologue_def Let_def)

lemma max_tlab_size_allocate_work:
  "allocate_work h word_size s = Inr (res, s1) \<Longrightarrow> max_tlab_size s1 = max_tlab_size s"
  by (auto simp: allocate_work_def Let_def split: if_splits prod.splits)

lemma max_tlab_size_allocate_new_tlab:
  assumes "allocate_new_tlab h min_size requested_size a0 s = Inr (res, actual, s1)"
  shows "max_tlab_size s1 = max_tlab_size s"
proof -
  from assms obtain sz where
    a: "allocate_or_collect_work h sz s = Inr (res, s1)"
    by (auto simp: allocate_new_tlab_def Let_def split: sum.splits if_splits prod.splits)
  show ?thesis
  proof (cases "allocate_work h sz s")
    case (Inl e)
    with a show ?thesis by (simp add: allocate_or_collect_work_def)
  next
    case (Inr r)
    obtain res0 s0 where r: "r = (res0, s0)" by (cases r)
    from Inr r have s0: "max_tlab_size s0 = max_tlab_size s"
      by (simp add: max_tlab_size_allocate_work)
    show ?thesis
    proof (cases "res0 = NULL")
      case True
      with a Inr r
      have "allocate_work h sz (vmentry_collect h allocation_failure s0) = Inr (res, s1)"
        by (simp add: allocate_or_collect_work_def)
      then have "max_tlab_size s1 = max_tlab_size (vmentry_collect h allocation_failure s0)"
        by (rule max_tlab_size_allocate_work)
      with s0 show ?thesis
        by (simp add: vmentry_collect_def Let_def max_tlab_size_entry_collect)
    next
      case False
      with a Inr r s0 show ?thesis by (simp add: allocate_or_collect_work_def)
    qed
  qed
qed

lemma is_object_aligned_dvd:
  "is_object_aligned h x \<longleftrightarrow> 2 ^ LogMinObjAlignment h dvd unat x"
  by (simp add: is_object_aligned_def MinObjAlignment_def is_aligned_dvd)

lemma initialize_cap:
  "max_tlab_size (initialize h f fl0) \<le> CollectedHeap_max_tlab_size h \<and>
   (is_object_aligned h (CollectedHeap_max_tlab_size h) \<longrightarrow>
      is_object_aligned h (max_tlab_size (initialize h f fl0)))"
proof -
  let ?a = "align_object_size h (MSweepMaxTLABSize f div HeapWordSize)"
  have m: "max_tlab_size (initialize h f fl0) = min (CollectedHeap_max_tlab_size h) ?a"
    by (simp add: initialize_def)
  have "is_object_aligned h ?a"
    by (simp add: is_object_aligned_def align_object_size_def is_aligned_align_up)
  then have "is_object_aligned h (CollectedHeap_max_tlab_size h) \<longrightarrow>
             is_object_aligned h (min (CollectedHeap_max_tlab_size h) ?a)"
    by (simp add: min_def)
  with m show ?thesis by simp
qed

lemma tlab_size_checks_hold:
  assumes k: "LogMinObjAlignment h < 64"
    and g: "is_object_aligned h (CollectedHeap_max_tlab_size h)"
    and cap: "max_tlab_size s = max_tlab_size (initialize h f fl0)"
    and mn: "min_size \<le> max_tlab_size s"
    and sz: "sz = align_up (min (max requested_size min_size) (max_tlab_size s))
                           (MinObjAlignment h)"
  shows "is_object_aligned h sz \<and> min_size \<le> sz \<and> sz \<le> max_tlab_size s \<and>
         sz \<le> CollectedHeap_max_tlab_size h"
proof -
  let ?c = "min (max requested_size min_size) (max_tlab_size s)"
  from initialize_cap [of h f fl0] g cap
  have le: "max_tlab_size s \<le> CollectedHeap_max_tlab_size h"
    and al: "is_aligned (max_tlab_size s) (2 ^ LogMinObjAlignment h)"
    by (simp_all add: is_object_aligned_def MinObjAlignment_def)
  have c1: "min_size \<le> ?c"
    using mn by simp
  have c2: "?c \<le> max_tlab_size s"
    by simp
  from align_up_bounds [OF k c2 al]
  have b1: "?c \<le> sz" and b2: "sz \<le> max_tlab_size s"
    by (simp_all add: sz MinObjAlignment_def)
  have "is_object_aligned h sz"
    by (simp add: sz is_object_aligned_def is_aligned_align_up)
  moreover from c1 b1 have "min_size \<le> sz" by (rule order_trans)
  moreover from b2 le have "sz \<le> CollectedHeap_max_tlab_size h" by (rule order_trans)
  ultimately show ?thesis using b2 by simp
qed

lemma allocate_new_tlab_checks_pass:
  assumes "LogMinObjAlignment h < 64"
    and "is_object_aligned h (CollectedHeap_max_tlab_size h)"
    and "max_tlab_size s = max_tlab_size (initialize h f fl0)"
    and "min_size \<le> max_tlab_size s"
  shows "allocate_new_tlab h min_size requested_size a0 s =
           (let sz = align_up (min (max requested_size min_size) (max_tlab_size s))
                              (MinObjAlignment h)
            in case allocate_or_collect_work h sz s of
                 Inl e \<Rightarrow> Inl e
               | Inr (res, s1) \<Rightarrow> Inr (res, if res \<noteq> NULL then sz else a0, s1))"
  using tlab_size_checks_hold [OF assms refl, of requested_size] assms(4)
  by (simp add: allocate_new_tlab_def clamp_def Let_def)

text \<open>
  C4. For a heap whose TLAB cap is the one \<^verbatim>\<open>initialize\<close> set, and
  \<open>min_size \<le> max_tlab_size\<close>: a call of \<^verbatim>\<open>allocate_new_tlab\<close> that returns a
  non-null address returns as actual size the requested size clamped to
  \<open>[min_size, max_tlab_size]\<close> and rounded up to \<^verbatim>\<open>MinObjAlignment\<close>. That size is at
  least \<open>min_size\<close>, at most \<open>max_tlab_size\<close>, which is at most the global maximum,
  and a multiple of the alignment; a request below \<open>min_size\<close> gives the rounded
  \<open>min_size\<close> and a request above \<open>max_tlab_size\<close> gives the rounded
  \<open>max_tlab_size\<close>. The bounds are the ones the function asserts before it
  allocates; \<open>tlab_size_checks_hold\<close> above shows that they hold by arithmetic when
  the global maximum is itself aligned, and \<open>max_tlab_size_allocate_new_tlab\<close> that
  allocating and collecting leave the cap as start-up set it.
\<close>

theorem allocate_new_tlab_clamp_law:
  assumes cap: "max_tlab_size s = max_tlab_size (initialize h f fl0)"
    and mn: "min_size \<le> max_tlab_size s"
    and ok: "allocate_new_tlab h min_size requested_size a0 s = Inr (res, actual, s')"
    and nn: "res \<noteq> NULL"
  shows "actual = align_up (min (max requested_size min_size) (max_tlab_size s))
                           (MinObjAlignment h) \<and>
         min_size \<le> actual \<and> actual \<le> max_tlab_size s \<and>
         max_tlab_size s \<le> CollectedHeap_max_tlab_size h \<and>
         is_object_aligned h actual \<and> 2 ^ LogMinObjAlignment h dvd unat actual \<and>
         (requested_size < min_size \<longrightarrow> actual = align_up min_size (MinObjAlignment h)) \<and>
         (max_tlab_size s < requested_size \<longrightarrow>
            actual = align_up (max_tlab_size s) (MinObjAlignment h))"
proof -
  let ?sz = "align_up (min (max requested_size min_size) (max_tlab_size s))
                      (MinObjAlignment h)"
  from ok nn have a: "actual = ?sz"
    and chk: "is_object_aligned h ?sz" "min_size \<le> ?sz" "?sz \<le> max_tlab_size s"
    by (auto simp: allocate_new_tlab_def clamp_def Let_def
             split: sum.splits if_splits prod.splits)
  have le: "max_tlab_size s \<le> CollectedHeap_max_tlab_size h"
    using initialize_cap [of h f fl0] cap by simp
  have lo: "min (max requested_size min_size) (max_tlab_size s) = min_size"
    if "requested_size < min_size"
  proof -
    from that have "max requested_size min_size = min_size" by (simp add: max_absorb2)
    with mn show ?thesis by (simp add: min_absorb1)
  qed
  have hi: "min (max requested_size min_size) (max_tlab_size s) = max_tlab_size s"
    if "max_tlab_size s < requested_size"
  proof -
    from that have "max_tlab_size s \<le> requested_size" by (rule less_imp_le)
    then have "max_tlab_size s \<le> max requested_size min_size"
      by (simp add: le_max_iff_disj)
    then show ?thesis by (simp add: min_absorb2)
  qed
  from a chk le lo hi show ?thesis
    by (simp add: is_object_aligned_dvd)
qed

theorem allocate_new_tlab_clamp_law_witness:
  "(\<exists>s'. allocate_new_tlab aligned_host 3 7 0 fresh_heap = Inr (4096, 8, s')) \<and>
   (\<exists>s'. allocate_new_tlab aligned_host 5 3 0 fresh_heap = Inr (4096, 6, s')) \<and>
   (\<exists>s'. allocate_new_tlab aligned_host 5 1000 0 fresh_heap = Inr (4096, 256, s')) \<and>
   max_tlab_size fresh_heap = 256"
proof -
  have cap: "max_tlab_size fresh_heap =
               max_tlab_size (initialize aligned_host (example_flags\<lparr>MSweepMaxTLABSize := 2048\<rparr>)
                 [\<lparr>node_start = 4096, node_size = 512\<rparr>])"
    by (simp add: fresh_heap_def)
  have m: "max_tlab_size fresh_heap = 256"
    by (simp add: example_defs align_defs)
  have mn3: "(3::64 word) \<le> max_tlab_size fresh_heap" and mn5: "(5::64 word) \<le> max_tlab_size fresh_heap"
    by (simp_all add: m)
  have nn: "(4096::64 word) \<noteq> NULL" by simp
  have "\<exists>a s'. allocate_new_tlab aligned_host 3 7 0 fresh_heap = Inr (4096, a, s')"
    by (simp add: alloc_defs align_defs example_defs Let_def)
  then obtain a1 s1 where
    e1: "allocate_new_tlab aligned_host 3 7 0 fresh_heap = Inr (4096, a1, s1)" by blast
  from allocate_new_tlab_clamp_law [OF cap mn3 e1 nn] have "a1 = 8"
    by (simp add: m align_defs aligned_host_def example_host_def)
  with e1 have r1: "\<exists>s'. allocate_new_tlab aligned_host 3 7 0 fresh_heap = Inr (4096, 8, s')"
    by blast
  have "\<exists>a s'. allocate_new_tlab aligned_host 5 3 0 fresh_heap = Inr (4096, a, s')"
    by (simp add: alloc_defs align_defs example_defs Let_def)
  then obtain a2 s2 where
    e2: "allocate_new_tlab aligned_host 5 3 0 fresh_heap = Inr (4096, a2, s2)" by blast
  from allocate_new_tlab_clamp_law [OF cap mn5 e2 nn] have "a2 = 6"
    by (simp add: m align_defs aligned_host_def example_host_def)
  with e2 have r2: "\<exists>s'. allocate_new_tlab aligned_host 5 3 0 fresh_heap = Inr (4096, 6, s')"
    by blast
  have "\<exists>a s'. allocate_new_tlab aligned_host 5 1000 0 fresh_heap = Inr (4096, a, s')"
    by (simp add: alloc_defs align_defs example_defs Let_def)
  then obtain a3 s3 where
    e3: "allocate_new_tlab aligned_host 5 1000 0 fresh_heap = Inr (4096, a3, s3)" by blast
  from allocate_new_tlab_clamp_law [OF cap mn5 e3 nn] have "a3 = 256"
    by (simp add: m align_defs aligned_host_def example_host_def)
  with e3 have r3: "\<exists>s'. allocate_new_tlab aligned_host 5 1000 0 fresh_heap = Inr (4096, 256, s')"
    by blast
  from r1 r2 r3 m show ?thesis by blast
qed

section \<open>Which entry point runs the cycle\<close>

text \<open>
  C5, as the spec states it, fails: \<^verbatim>\<open>collect\<close> with the cause of an explicit request
  (or with allocation failure) logs that the request is ignored and returns the heap
  as it was, while the cycle on the same heap makes its five calls and frees two
  objects.
\<close>

theorem collect_explicit_request_counterexample:
  "collect example_host java_lang_system_gc example_heap =
     Inr (example_heap\<lparr>trace :=
            [Log Info ''GC request for %s is ignored'' [Cause_name java_lang_system_gc]]\<rparr>) \<and>
   collect example_host allocation_failure example_heap =
     Inr (example_heap\<lparr>trace :=
            [Log Info ''GC request for %s is ignored'' [Cause_name allocation_failure]]\<rparr>) \<and>
   calls (trace (entry_collect example_host java_lang_system_gc example_heap)) =
     [Commit_memory bitmap_region True, Ensure_parsability True, Do_roots, Object_iterate,
      Uncommit_memory bitmap_region True] \<and>
   free_list (entry_collect example_host java_lang_system_gc example_heap) \<noteq>
     free_list example_heap"
  by (simp add: collect_def cycle_defs example_defs calls_simps Let_def)

text \<open>
  C5, amended. \<^verbatim>\<open>collect\<close> runs no cycle: for every cause other than the two
  metadata causes it only logs that the request is ignored. The full cycle is what
  \<^verbatim>\<open>entry_collect\<close> runs, for every cause: prologue, mark, sweep and epilogue in this
  order, seen in its calls (the TLABs are retired when the commit succeeded).
\<close>

theorem entry_collect_runs_full_cycle:
  "(cause \<notin> {metadata_GC_threshold, metadata_GC_clear_soft_refs} \<longrightarrow>
      collect h cause s =
        Inr (s\<lparr>trace := trace s @
                 [Log Info ''GC request for %s is ignored'' [Cause_name cause]]\<rparr>)) \<and>
   entry_collect h cause s = epilogue h (sweep h (mark h (prologue h s))) \<and>
   calls (trace (entry_collect h cause s)) =
     calls (trace s) @
     [Commit_memory bitmap_region (os_commit h bitmap_region)] @
     (if os_commit h bitmap_region then [Ensure_parsability True] else []) @
     [Do_roots, Object_iterate, Uncommit_memory bitmap_region (os_uncommit h bitmap_region)]"
proof (intro conjI impI)
  assume "cause \<notin> {metadata_GC_threshold, metadata_GC_clear_soft_refs}"
  then show "collect h cause s =
        Inr (s\<lparr>trace := trace s @
                 [Log Info ''GC request for %s is ignored'' [Cause_name cause]]\<rparr>)"
    by (cases cause) (simp_all add: collect_def)
next
  show "entry_collect h cause s = epilogue h (sweep h (mark h (prologue h s)))"
    by (simp add: entry_collect_def)
next
  show "calls (trace (entry_collect h cause s)) =
     calls (trace s) @
     [Commit_memory bitmap_region (os_commit h bitmap_region)] @
     (if os_commit h bitmap_region then [Ensure_parsability True] else []) @
     [Do_roots, Object_iterate, Uncommit_memory bitmap_region (os_uncommit h bitmap_region)]"
    by (rule calls_entry_collect)
qed

theorem entry_collect_runs_full_cycle_witness:
  "collect example_host java_lang_system_gc example_heap =
     Inr (example_heap\<lparr>trace :=
            [Log Info ''GC request for %s is ignored'' [Cause_name java_lang_system_gc]]\<rparr>) \<and>
   calls (trace (entry_collect example_host java_lang_system_gc example_heap)) =
     [Commit_memory bitmap_region True, Ensure_parsability True, Do_roots, Object_iterate,
      Uncommit_memory bitmap_region True]"
proof -
  note t = entry_collect_runs_full_cycle [of java_lang_system_gc example_host example_heap]
  from t have "collect example_host java_lang_system_gc example_heap =
     Inr (example_heap\<lparr>trace := trace example_heap @
            [Log Info ''GC request for %s is ignored'' [Cause_name java_lang_system_gc]]\<rparr>)"
    by simp
  moreover from t have "calls (trace (entry_collect example_host java_lang_system_gc example_heap)) =
     calls (trace example_heap) @
     [Commit_memory bitmap_region (os_commit example_host bitmap_region)] @
     (if os_commit example_host bitmap_region then [Ensure_parsability True] else []) @
     [Do_roots, Object_iterate,
      Uncommit_memory bitmap_region (os_uncommit example_host bitmap_region)]"
    by blast
  ultimately show ?thesis
    by (simp add: example_host_def example_heap_def calls_simps)
qed

section \<open>A failed commit in the prologue\<close>

text \<open>
  C7 at a runtime whose commit of the live bitmap fails. The prologue returns after the
  failed commit: it logs nothing and does not retire the TLABs, and the cycle goes on
  to mark and sweep. With a successful commit the TLABs are retired. The sibling
  paths do log: start-up after a failed commit of the free-chunk bitmap, and the
  epilogue after a failed uncommit.
\<close>

theorem prologue_commit_failure_skips_retirement:
  "prologue failing_commit_host example_heap =
     example_heap\<lparr>trace := [Commit_memory bitmap_region False]\<rparr> \<and>
   prologue example_host example_heap =
     example_heap\<lparr>trace := [Commit_memory bitmap_region True, Ensure_parsability True]\<rparr> \<and>
   trace (entry_collect failing_commit_host allocation_failure example_heap) =
     [Commit_memory bitmap_region False, Do_roots, Object_iterate,
      Log Info ''Sweeping obj %li'' [Size 200], Uncommit_memory bitmap_region True] \<and>
   trace (initialize (example_host\<lparr>os_commit := (\<lambda>r. False)\<rparr>) example_flags []) =
     [Commit_memory fc_bitmap_region False,
      Log Warning ''Could not commit native memory for marking bitmap'' []] \<and>
   trace (epilogue (example_host\<lparr>os_uncommit := (\<lambda>r. False)\<rparr>) example_heap) =
     [Uncommit_memory bitmap_region False,
      Log Warning ''Could not uncommit native memory for marking bitmap'' []]"
  by (simp add: cycle_defs example_defs Let_def)

section \<open>Marking pushes every reachable object once\<close>

lemma do_oop_work_idem:
  "do_oop_work g v (do_oop_work g v cl) = do_oop_work g v cl"
  by (simp add: do_oop_work_def Let_def)

lemma scan_discovers:
  "\<exists>new. cl_pushed (fold (do_oop_work g) vs cl) = cl_pushed cl @ new \<and>
         cl_stack (fold (do_oop_work g) vs cl) = rev new @ cl_stack cl \<and>
         cl_bitmap (fold (do_oop_work g) vs cl) = cl_bitmap cl \<union> set new \<and>
         distinct new \<and>
         set new = set vs - {NULL} - cl_bitmap cl"
proof (induction vs arbitrary: cl)
  case Nil
  show ?case by simp
next
  case (Cons v vs)
  show ?case
  proof (cases "v \<noteq> NULL \<and> v \<notin> cl_bitmap cl")
    case True
    let ?c = "do_oop_work g v cl"
    from True have c: "cl_pushed ?c = cl_pushed cl @ [v]" "cl_stack ?c = v # cl_stack cl"
      "cl_bitmap ?c = insert v (cl_bitmap cl)"
      by (simp_all add: do_oop_work_def Let_def)
    from Cons.IH [of ?c] obtain new where n:
      "cl_pushed (fold (do_oop_work g) vs ?c) = cl_pushed ?c @ new"
      "cl_stack (fold (do_oop_work g) vs ?c) = rev new @ cl_stack ?c"
      "cl_bitmap (fold (do_oop_work g) vs ?c) = cl_bitmap ?c \<union> set new"
      "distinct new" "set new = set vs - {NULL} - cl_bitmap ?c"
      by blast
    have p: "cl_pushed (fold (do_oop_work g) (v # vs) cl) = cl_pushed cl @ (v # new)"
      using n(1) c(1) by simp
    have s: "cl_stack (fold (do_oop_work g) (v # vs) cl) = rev (v # new) @ cl_stack cl"
      using n(2) c(2) by simp
    have b: "cl_bitmap (fold (do_oop_work g) (v # vs) cl) = cl_bitmap cl \<union> set (v # new)"
      using n(3) c(3) by simp
    have d: "distinct (v # new)" using n(4,5) c(3) by auto
    have e: "set (v # new) = set (v # vs) - {NULL} - cl_bitmap cl"
      using n(5) c(3) True by auto
    from p s b d e show ?thesis by blast
  next
    case False
    then have c: "do_oop_work g v cl = cl"
      by (auto simp: do_oop_work_def Let_def)
    from Cons.IH [of cl] obtain new where n:
      "cl_pushed (fold (do_oop_work g) vs cl) = cl_pushed cl @ new"
      "cl_stack (fold (do_oop_work g) vs cl) = rev new @ cl_stack cl"
      "cl_bitmap (fold (do_oop_work g) vs cl) = cl_bitmap cl \<union> set new"
      "distinct new" "set new = set vs - {NULL} - cl_bitmap cl"
      by blast
    have p: "cl_pushed (fold (do_oop_work g) (v # vs) cl) = cl_pushed cl @ new"
      using n(1) c by simp
    have s: "cl_stack (fold (do_oop_work g) (v # vs) cl) = rev new @ cl_stack cl"
      using n(2) c by simp
    have b: "cl_bitmap (fold (do_oop_work g) (v # vs) cl) = cl_bitmap cl \<union> set new"
      using n(3) c by simp
    have e: "set new = set (v # vs) - {NULL} - cl_bitmap cl"
      using False n(5) by auto
    from p s b n(4) e show ?thesis by blast
  qed
qed

lemma mark_inv_do_roots:
  assumes "cl_stack cl = []" "cl_pushed cl = []" "cl_bitmap cl = bm0"
  shows "mark_inv g bm0 (do_roots h g cl) \<and>
         set (cl_pushed (do_roots h g cl)) \<subseteq> reachable g (roots h) \<and>
         (\<forall>r \<in> set (roots h). r \<noteq> NULL \<longrightarrow> r \<in> cl_bitmap (do_roots h g cl))"
proof -
  let ?init = "cl\<lparr>cl_log := cl_log cl @ [Do_roots]\<rparr>"
  from scan_discovers [of g "roots h" ?init] assms obtain new where n:
    "cl_pushed (do_roots h g cl) = new" "cl_stack (do_roots h g cl) = rev new"
    "cl_bitmap (do_roots h g cl) = bm0 \<union> set new" "distinct new"
    "set new = set (roots h) - {NULL} - bm0"
    by (auto simp: do_roots_def)
  have "set new \<subseteq> reachable g (roots h)"
    using n(5) by (auto intro: reachable.root)
  with n show ?thesis by (auto simp: mark_inv_def)
qed

lemma mark_inv_step:
  assumes inv: "mark_inv g bm0 cl" and st: "cl_stack cl = obj # rest"
    and re: "set (cl_pushed cl) \<subseteq> reachable g rs"
  shows "mark_inv g bm0 (oop_iterate g obj (cl\<lparr>cl_stack := rest\<rparr>)) \<and>
         set (cl_pushed (oop_iterate g obj (cl\<lparr>cl_stack := rest\<rparr>))) \<subseteq> reachable g rs \<and>
         cl_bitmap cl \<subseteq> cl_bitmap (oop_iterate g obj (cl\<lparr>cl_stack := rest\<rparr>))"
proof -
  let ?c = "cl\<lparr>cl_stack := rest\<rparr>"
  let ?c' = "oop_iterate g obj ?c"
  from scan_discovers [of g "fields_of g obj" ?c] obtain new where n:
    "cl_pushed ?c' = cl_pushed cl @ new" "cl_stack ?c' = rev new @ rest"
    "cl_bitmap ?c' = cl_bitmap cl \<union> set new" "distinct new"
    "set new = set (fields_of g obj) - {NULL} - cl_bitmap cl"
    by (auto simp: oop_iterate_def)
  from inv st have i:
    "distinct (cl_pushed cl)" "cl_bitmap cl = bm0 \<union> set (cl_pushed cl)"
    "set (cl_pushed cl) \<inter> bm0 = {}" "NULL \<notin> set (cl_pushed cl)"
    "obj \<notin> set rest" "distinct rest" "obj \<in> set (cl_pushed cl)"
    "set rest \<subseteq> set (cl_pushed cl)"
    by (simp_all add: mark_inv_def)
  from inv have "\<forall>x \<in> set (cl_pushed cl) - set (cl_stack cl).
              \<forall>y \<in> set (fields_of g x). y \<noteq> NULL \<longrightarrow> y \<in> cl_bitmap cl"
    unfolding mark_inv_def by (elim conjE)
  then have cl0: "\<forall>x \<in> set (cl_pushed cl) - set (obj # rest).
              \<forall>y \<in> set (fields_of g x). y \<noteq> NULL \<longrightarrow> y \<in> cl_bitmap cl"
    by (simp only: st)
  have cl: "y \<in> cl_bitmap cl"
    if "x \<in> set (cl_pushed cl)" "x \<noteq> obj" "x \<notin> set rest"
       "y \<in> set (fields_of g x)" "y \<noteq> NULL" for x y
    using cl0 that by auto
  have nb: "set new \<inter> cl_bitmap cl = {}" and n0: "NULL \<notin> set new"
    and nf: "set new \<subseteq> set (fields_of g obj)"
    and fb: "\<And>y. y \<in> set (fields_of g obj) \<Longrightarrow> y \<noteq> NULL \<Longrightarrow> y \<in> cl_bitmap cl \<union> set new"
    unfolding n(5) by blast+
  from nb i(2) have np: "set (cl_pushed cl) \<inter> set new = {}" and nz: "set new \<inter> bm0 = {}"
    by blast+
  from np i(8) have nr: "set new \<inter> set rest = {}" by blast
  have d1: "distinct (cl_pushed ?c')"
    by (simp add: n(1) i(1) n(4) np)
  have d2: "cl_bitmap ?c' = bm0 \<union> set (cl_pushed ?c')"
    by (simp add: n(1,3) i(2) Un_assoc)
  have d3: "set (cl_pushed ?c') \<inter> bm0 = {}"
    using i(3) nz by (simp add: n(1) Int_Un_distrib2)
  have d4: "NULL \<notin> set (cl_pushed ?c')"
    using i(4) n0 by (simp add: n(1))
  have d5: "distinct (cl_stack ?c')"
    using nr by (simp add: n(2) n(4) i(6))
  have d6: "set (cl_stack ?c') \<subseteq> set (cl_pushed ?c')"
    using i(8) by (auto simp: n(1,2))
  have d7: "\<forall>x \<in> set (cl_pushed ?c') - set (cl_stack ?c').
              \<forall>y \<in> set (fields_of g x). y \<noteq> NULL \<longrightarrow> y \<in> cl_bitmap ?c'"
  proof (intro ballI impI)
    fix x y
    assume x: "x \<in> set (cl_pushed ?c') - set (cl_stack ?c')"
      and y: "y \<in> set (fields_of g x)" "y \<noteq> NULL"
    from x have xp: "x \<in> set (cl_pushed cl)" "x \<notin> set rest"
      by (auto simp: n(1,2))
    show "y \<in> cl_bitmap ?c'"
    proof (cases "x = obj")
      case True
      with y fb [of y] show ?thesis by (simp add: n(3))
    next
      case False
      from cl [OF xp(1) False xp(2) y] show ?thesis by (simp add: n(3))
    qed
  qed
  have "set new \<subseteq> reachable g rs"
  proof
    fix y assume "y \<in> set new"
    with nf n0 have "y \<in> set (fields_of g obj)" "y \<noteq> NULL" by auto
    moreover from i(7) re have "obj \<in> reachable g rs" by auto
    ultimately show "y \<in> reachable g rs" by (rule reachable.field [rotated])
  qed
  with re have r: "set (cl_pushed ?c') \<subseteq> reachable g rs" by (simp add: n(1))
  have "mark_inv g bm0 ?c'"
    unfolding mark_inv_def by (intro conjI d1 d2 d3 d4 d5 d6 d7)
  moreover have "cl_bitmap cl \<subseteq> cl_bitmap ?c'"
    using n(3) by simp
  ultimately show ?thesis using r by simp
qed

lemma mark_loop_inv:
  assumes "mark_inv g bm0 cl" and "set (cl_pushed cl) \<subseteq> reachable g rs"
  shows "mark_inv g bm0 (mark_loop g cl) \<and>
         set (cl_pushed (mark_loop g cl)) \<subseteq> reachable g rs \<and>
         cl_bitmap cl \<subseteq> cl_bitmap (mark_loop g cl) \<and>
         cl_stack (mark_loop g cl) = []"
  using assms
proof (induction g cl rule: mark_loop.induct)
  case (1 g cl)
  show ?case
  proof (cases "cl_stack cl")
    case Nil
    with "1.prems" show ?thesis by (subst (1 2 3 4) mark_loop.simps) simp
  next
    case (Cons obj rest)
    let ?c' = "oop_iterate g obj (cl\<lparr>cl_stack := rest\<rparr>)"
    from mark_inv_step [OF "1.prems"(1) Cons "1.prems"(2)]
    have s: "mark_inv g bm0 ?c'" "set (cl_pushed ?c') \<subseteq> reachable g rs"
      "cl_bitmap cl \<subseteq> cl_bitmap ?c'"
      by simp_all
    from "1.IH" [OF Cons s(1,2)] s(3)
    have "mark_inv g bm0 (mark_loop g ?c') \<and>
          set (cl_pushed (mark_loop g ?c')) \<subseteq> reachable g rs \<and>
          cl_bitmap cl \<subseteq> cl_bitmap (mark_loop g ?c') \<and>
          cl_stack (mark_loop g ?c') = []"
      by blast
    moreover have "mark_loop g cl = mark_loop g ?c'"
      using Cons by (subst mark_loop.simps) simp
    ultimately show ?thesis by simp
  qed
qed


lemma reachable_marked:
  assumes inv: "mark_inv g {} cl" and st: "cl_stack cl = []"
    and rt: "\<forall>r \<in> set rs. r \<noteq> NULL \<longrightarrow> r \<in> cl_bitmap cl"
    and x: "x \<in> reachable g rs"
  shows "x \<in> cl_bitmap cl"
  using x
proof (induction rule: reachable.induct)
  case (root r)
  with rt show ?case by blast
next
  case (field x y)
  from inv have b: "cl_bitmap cl = set (cl_pushed cl)"
    by (simp add: mark_inv_def)
  from inv have "\<forall>x \<in> set (cl_pushed cl) - set (cl_stack cl).
              \<forall>y \<in> set (fields_of g x). y \<noteq> NULL \<longrightarrow> y \<in> cl_bitmap cl"
    unfolding mark_inv_def by (elim conjE)
  with st field.IH b field.hyps(2,3) show ?case by simp
qed

text \<open>
  C2. The heap is a finite table of objects, and on every such heap the loop of the
  mark phase ends: \<open>mark_loop\<close> is a total function by the termination proof at its
  definition, and it returns with an empty stack. The objects pushed during the phase
  are pairwise distinct, none of them was marked before, the marked addresses are the
  old ones and the pushed ones, and every pushed object is reachable. When the bitmap
  is clear at the start, the pushed objects are exactly the reachable ones, and so are
  the marked ones after the phase. A slot whose object is already marked leaves the
  closure as it is, and visiting a slot twice is the same as visiting it once.
\<close>

theorem mark_pushes_each_reachable_once:
  "cl_stack (mark_closure h s) = [] \<and>
   distinct (cl_pushed (mark_closure h s)) \<and>
   set (cl_pushed (mark_closure h s)) \<inter> mark_bitmap s = {} \<and>
   cl_bitmap (mark_closure h s) = mark_bitmap s \<union> set (cl_pushed (mark_closure h s)) \<and>
   set (cl_pushed (mark_closure h s)) \<subseteq> reachable (objects s) (roots h) \<and>
   (mark_bitmap s = {} \<longrightarrow>
      set (cl_pushed (mark_closure h s)) = reachable (objects s) (roots h) \<and>
      mark_bitmap (mark h s) = reachable (objects s) (roots h)) \<and>
   (\<forall>g v cl. v \<in> cl_bitmap cl \<longrightarrow> do_oop_work g v cl = cl) \<and>
   (\<forall>g v cl. do_oop_work g v (do_oop_work g v cl) = do_oop_work g v cl)"
proof -
  let ?g = "objects s"
  let ?init = "\<lparr>cl_stack = [], cl_bitmap = mark_bitmap s, cl_pushed = [], cl_log = trace s\<rparr>"
  let ?rooted = "do_roots h ?g ?init"
  let ?final = "mark_closure h s"
  have c: "?final = mark_loop ?g ?rooted"
    by (simp add: mark_closure_def)
  from mark_inv_do_roots [of ?init "mark_bitmap s" ?g h]
  have r1: "mark_inv ?g (mark_bitmap s) ?rooted"
    and r2: "set (cl_pushed ?rooted) \<subseteq> reachable ?g (roots h)"
    and r3: "\<forall>r \<in> set (roots h). r \<noteq> NULL \<longrightarrow> r \<in> cl_bitmap ?rooted"
    by simp_all
  from mark_loop_inv [OF r1 r2]
  have l1: "mark_inv ?g (mark_bitmap s) ?final"
    and l2: "set (cl_pushed ?final) \<subseteq> reachable ?g (roots h)"
    and l3: "cl_bitmap ?rooted \<subseteq> cl_bitmap ?final"
    and l4: "cl_stack ?final = []"
    unfolding c by simp_all
  from l1 have p1: "distinct (cl_pushed ?final)"
    and p2: "set (cl_pushed ?final) \<inter> mark_bitmap s = {}"
    and p3: "cl_bitmap ?final = mark_bitmap s \<union> set (cl_pushed ?final)"
    by (simp_all add: mark_inv_def)
  have p4: "set (cl_pushed ?final) = reachable ?g (roots h) \<and>
            mark_bitmap (mark h s) = reachable ?g (roots h)"
    if e: "mark_bitmap s = {}"
  proof -
    from r3 l3 have rt: "\<forall>r \<in> set (roots h). r \<noteq> NULL \<longrightarrow> r \<in> cl_bitmap ?final"
      by blast
    from l1 e have inv: "mark_inv ?g {} ?final" by simp
    have "reachable ?g (roots h) \<subseteq> cl_bitmap ?final"
      using reachable_marked [OF inv l4 rt] by blast
    moreover from p3 e have b: "cl_bitmap ?final = set (cl_pushed ?final)" by simp
    ultimately have "set (cl_pushed ?final) = reachable ?g (roots h)"
      using l2 by simp
    moreover have "mark_bitmap (mark h s) = cl_bitmap ?final"
      by (simp add: mark_def Let_def)
    ultimately show ?thesis using b by simp
  qed
  have p5: "\<forall>g v cl. v \<in> cl_bitmap cl \<longrightarrow> do_oop_work g v cl = cl"
    by (simp add: do_oop_work_def Let_def)
  have p6: "\<forall>g v cl. do_oop_work g v (do_oop_work g v cl) = do_oop_work g v cl"
    by (simp add: do_oop_work_idem)
  from l4 p1 p2 p3 l2 p4 p5 p6 show ?thesis by blast
qed

theorem mark_pushes_each_reachable_once_witness:
  "cl_pushed (mark_closure example_host example_heap) = [16, 32, 48] \<and>
   reachable example_objects [16, NULL, 16] = {16, 32, 48} \<and>
   mark_bitmap (mark example_host example_heap) = {16, 32, 48}"
proof -
  have p: "cl_pushed (mark_closure example_host example_heap) = [16, 32, 48]"
    by (simp add: cycle_defs example_defs)
  have e: "mark_bitmap example_heap = {}" "objects example_heap = example_objects"
    "roots example_host = [16, NULL, 16]"
    by (simp_all add: example_heap_def example_host_def)
  from mark_pushes_each_reachable_once [of example_host example_heap] e(1)
  have "set (cl_pushed (mark_closure example_host example_heap)) =
          reachable (objects example_heap) (roots example_host) \<and>
        mark_bitmap (mark example_host example_heap) =
          reachable (objects example_heap) (roots example_host)"
    by blast
  with p e show ?thesis by auto
qed

end
